theory Spec2Isabelle
  imports Complex_Main
begin

section \<open>Shallow embedding of \<open>manifold_twins.py\<close>\<close>

text \<open>
  The embedding follows the methods of the class \<open>ManifoldTwinsAnalysis\<close>. Floating point
  numbers are idealised as reals (with an explicit NaN where a claim is about NaN); the
  properties below are about which rows, columns, keys and names the code touches, not
  about rounding. Collaborators that are not part of the module (the ingestion library,
  the optimizer, the Gaussian process library, \<open>md5\<close>, \<open>str\<close>) are parameters of the
  definitions that call them.
\<close>

subsection \<open>Sample selection in \<open>__init__\<close> (lines 46--97)\<close>

record spectrum =
  phase :: real
  signal_to_noise :: real

text \<open>
  \<open>signal_to_noise\<close> is what \<open>spectrum.get_signal_to_noise\<close> returns for the configured
  wavelength window; \<open>range_spectra\<close> is what \<open>supernova.get_spectra_in_range\<close> returns for
  the configured phase range, after the reference time has been shifted by the SALT \<open>t0\<close>.
\<close>

record supernova =
  spectra :: "spectrum list"
  salt_t0_err :: real
  range_spectra :: "spectrum list"

record selection =
  all_raw_spec :: "spectrum list"
  center_mask :: "bool list"
  attrition_enough_spectra :: nat
  attrition_salt_daymax :: nat
  attrition_range :: nat
  attrition_usable :: nat

definition check_spectrum :: "real \<Rightarrow> spectrum \<Rightarrow> bool" where
  "check_spectrum s2n_cut_threshold sp =
     (if signal_to_noise sp < s2n_cut_threshold then False else True)"

text \<open>\<open>np.argmin\<close>: the first index of a least element (the argument is never empty here).\<close>

fun argmin_from :: "real \<Rightarrow> nat \<Rightarrow> nat \<Rightarrow> real list \<Rightarrow> nat" where
  "argmin_from best besti i [] = besti"
| "argmin_from best besti i (v # vs) =
     (if v < best then argmin_from v i (Suc i) vs else argmin_from best besti (Suc i) vs)"

definition np_argmin :: "real list \<Rightarrow> nat" where
  "np_argmin vs = (case vs of [] \<Rightarrow> 0 | v # rest \<Rightarrow> argmin_from v 0 1 rest)"

definition target_center_mask :: "real list \<Rightarrow> bool list" where
  "target_center_mask used_phases =
     (replicate (length used_phases) False)[np_argmin (map abs used_phases) := True]"

text \<open>One iteration of the loop over \<open>self.dataset.targets\<close>.\<close>

definition select_target :: "real \<Rightarrow> selection \<Rightarrow> supernova \<Rightarrow> selection" where
  "select_target s2n_cut_threshold st sn =
     (if length (spectra sn) < 5 then st
      else
        let st1 = st\<lparr>attrition_enough_spectra := attrition_enough_spectra st + 1\<rparr> in
        if salt_t0_err sn > 1 then st1
        else
          let st2 = st1\<lparr>attrition_salt_daymax := attrition_salt_daymax st1 + 1\<rparr>;
              st3 = (if length (range_spectra sn) > 0
                     then st2\<lparr>attrition_range := attrition_range st2 + 1\<rparr> else st2);
              used = filter (check_spectrum s2n_cut_threshold) (range_spectra sn);
              st4 = st3\<lparr>all_raw_spec := all_raw_spec st3 @ used\<rparr>;
              used_phases = map phase used
          in if length used_phases > 0
             then st4\<lparr>attrition_usable := attrition_usable st4 + 1,
                      center_mask := center_mask st4 @ target_center_mask used_phases\<rparr>
             else st4)"

definition empty_selection :: selection where
  "empty_selection = \<lparr>all_raw_spec = [], center_mask = [], attrition_enough_spectra = 0,
     attrition_salt_daymax = 0, attrition_range = 0, attrition_usable = 0\<rparr>"

definition select_targets :: "real \<Rightarrow> supernova list \<Rightarrow> selection" where
  "select_targets s2n_cut_threshold targets =
     foldl (select_target s2n_cut_threshold) empty_selection targets"

text \<open>The spectra of one target that enter the sample, and whether the target is kept.\<close>

definition used_spectra :: "real \<Rightarrow> supernova \<Rightarrow> spectrum list" where
  "used_spectra s2n_cut_threshold sn = filter (check_spectrum s2n_cut_threshold) (range_spectra sn)"

definition survives :: "supernova \<Rightarrow> bool" where
  "survives sn = (\<not> length (spectra sn) < 5 \<and> \<not> salt_t0_err sn > 1)"

subsection \<open>Settings, library functions and exceptions\<close>

text \<open>
  The entries of \<open>self.settings\<close> that the embedded code reads. Texts are ASCII
  (\<open>hash_info.encode("ascii")\<close> accepts them).
\<close>

record settings =
  idr :: string
  phase_range :: real
  bin_velocity :: real
  bin_min_wavelength :: real
  bin_max_wavelength :: real
  s2n_cut_min_wavelength :: real
  s2n_cut_max_wavelength :: real
  s2n_cut_threshold :: real
  maximum_num_phase_coefficients :: int
  rbtl_fiducial_rv :: real
  blinded :: bool



datatype exn =
    Exception string
  | ManifoldTwinsException string
  | AttributeError string
  | NameError string
  | KeyError string
  | IndexError
  | ValueError
  | OverflowError
  | TypeError


subsection \<open>Cache keys (lines 146--157 and 250--256)\<close>






subsection \<open>Phase coefficients in \<open>model_maximum_spectra\<close> (lines 281--302)\<close>

text \<open>
  Assignment to a cell of a numpy row: an index from \<open>-n\<close> to \<open>-1\<close> counts from the end,
  an index outside \<open>-n .. n-1\<close> raises \<open>IndexError\<close>.
\<close>

definition np_set :: "real list \<Rightarrow> int \<Rightarrow> real \<Rightarrow> exn + real list" where
  "np_set row k w =
     (let n = int (length row) in
      if 0 \<le> k \<and> k < n then Inr (row[nat k := w])
      else if - n \<le> k \<and> k < 0 then Inr (row[nat (k + n) := w])
      else Inl IndexError)"

definition np_set2 :: "real list list \<Rightarrow> nat \<Rightarrow> int \<Rightarrow> real \<Rightarrow> exn + real list list" where
  "np_set2 m i k w =
     (if i < length m
      then (case np_set (m ! i) k w of Inl e \<Rightarrow> Inl e | Inr row \<Rightarrow> Inr (m[i := row]))
      else Inl IndexError)"

text \<open>The body of the loop over \<open>j\<close> for one value of \<open>j\<close>.\<close>

definition set_phase_weight ::
  "int \<Rightarrow> real \<Rightarrow> nat \<Rightarrow> real \<Rightarrow> nat \<Rightarrow> real list list \<Rightarrow> nat \<Rightarrow> exn + real list list" where
  "set_phase_weight num_phase_coefficients phase_i full_bins remainder i m j =
     (let weight = (if j = full_bins then remainder else 1);
          phase_bin = (if phase_i > 0 then num_phase_coefficients div 2 + int j
                       else num_phase_coefficients div 2 - 1 - int j)
      in np_set2 m i phase_bin weight)"

fun set_phase_weights ::
  "int \<Rightarrow> real \<Rightarrow> nat \<Rightarrow> real \<Rightarrow> nat \<Rightarrow> nat list \<Rightarrow> real list list \<Rightarrow> exn + real list list" where
  "set_phase_weights n phase_i full_bins remainder i [] m = Inr m"
| "set_phase_weights n phase_i full_bins remainder i (j # js) m =
     (case set_phase_weight n phase_i full_bins remainder i m j of
        Inl e \<Rightarrow> Inl e
      | Inr m' \<Rightarrow> set_phase_weights n phase_i full_bins remainder i js m')"

text \<open>
  The body of the loop over the spectra for spectrum \<open>i\<close>. The phases are numpy floats: a
  division by a zero \<open>phase_range\<close> gives an infinity or a NaN, which \<open>int\<close> refuses with
  \<open>OverflowError\<close> or \<open>ValueError\<close>.
\<close>

definition set_phase_row ::
  "int \<Rightarrow> real \<Rightarrow> nat \<Rightarrow> real \<Rightarrow> real list list \<Rightarrow> exn + real list list" where
  "set_phase_row num_phase_coefficients phase_range_value i phase_i m =
     (if phase_range_value = 0
      then (if phase_i = 0 \<or> num_phase_coefficients = 0 then Inl ValueError else Inl OverflowError)
      else
        let phase_scale = \<bar>(real_of_int num_phase_coefficients / 2) * (phase_i / phase_range_value)\<bar>;
            full_bins = nat \<lfloor>phase_scale\<rfloor>;
            remainder = phase_scale - real full_bins
        in set_phase_weights num_phase_coefficients phase_i full_bins remainder i
             [0..<full_bins + 1] m)"

fun set_phase_rows ::
  "int \<Rightarrow> real \<Rightarrow> nat \<Rightarrow> real list \<Rightarrow> real list list \<Rightarrow> exn + real list list" where
  "set_phase_rows n pr i [] m = Inr m"
| "set_phase_rows n pr i (phase_i # phases) m =
     (case set_phase_row n pr i phase_i m of
        Inl e \<Rightarrow> Inl e
      | Inr m' \<Rightarrow> set_phase_rows n pr (Suc i) phases m')"

text \<open>\<open>np.zeros((num_spectra, num_phase_coefficients))\<close> followed by the loop.\<close>

definition phase_coefficients ::
  "int \<Rightarrow> real \<Rightarrow> nat \<Rightarrow> real list \<Rightarrow> exn + real list list" where
  "phase_coefficients num_phase_coefficients phase_range_value num_spectra salt_phases =
     (if num_phase_coefficients < 0 then Inl ValueError
      else set_phase_rows num_phase_coefficients phase_range_value 0 salt_phases
             (replicate num_spectra (replicate (nat num_phase_coefficients) 0)))"

text \<open>
  The specification's description of a row: at most two nonzero entries, in adjacent
  columns.
\<close>

definition nonzero_columns :: "real list \<Rightarrow> nat list" where
  "nonzero_columns row = filter (\<lambda>c. row ! c \<noteq> 0) [0..<length row]"

definition at_most_two_adjacent :: "real list \<Rightarrow> bool" where
  "at_most_two_adjacent row =
     (case nonzero_columns row of
        [] \<Rightarrow> True
      | [c] \<Rightarrow> True
      | [c, d] \<Rightarrow> d = Suc c
      | _ \<Rightarrow> False)"

text \<open>
  What the loop writes into a row: counting outwards from the centre, \<open>full_bins\<close> columns
  holding 1 and then one column holding the remainder.
\<close>

definition filled_row :: "int \<Rightarrow> real \<Rightarrow> real \<Rightarrow> real list" where
  "filled_row num_phase_coefficients phase_range_value phase_i =
     (let phase_scale = \<bar>(real_of_int num_phase_coefficients / 2) * (phase_i / phase_range_value)\<bar>;
          full_bins = nat \<lfloor>phase_scale\<rfloor>;
          remainder = phase_scale - real full_bins;
          half = nat (num_phase_coefficients div 2)
      in map (\<lambda>c. if phase_i > 0
                   then (if half \<le> c \<and> c < half + full_bins then 1
                         else if c = half + full_bins then remainder else 0)
                   else (if c < half \<and> half \<le> c + full_bins then 1
                         else if c + full_bins + 1 = half then remainder else 0))
           [0..<nat num_phase_coefficients])"

subsection \<open>Stan results and the state of the analysis object\<close>





text \<open>
  The attributes that \<open>__init__\<close> leaves on the object and that the later stages read.
  \<open>target_subsets\<close> holds \<open>idr.subset\<close> of each target of \<open>self.targets\<close>; \<open>salt_phases\<close> holds
  the phase of each spectrum of \<open>self.spectra\<close>; \<open>target_map\<close> holds the index of the target
  of each spectrum.
\<close>

record sample =
  target_subsets :: "string list"
  flux :: "real list list"
  fluxerr :: "real list list"
  wave :: "real list"
  salt_phases :: "real list"
  target_map :: "nat list"
  self_center_mask :: "bool list"
  salt_x1 :: "real list"




subsection \<open>\<open>model_maximum_spectra\<close> (lines 225--344)\<close>




subsection \<open>\<open>read_between_the_lines\<close> and \<open>_parse_rbtl_result\<close> (lines 346--434)\<close>










subsection \<open>Example values\<close>










section \<open>Verified properties\<close>

subsection \<open>Facts about the center mask\<close>







lemma target_center_mask_length: "length (target_center_mask ps) = length ps"
  by (simp add: target_center_mask_def)



lemma select_target_cut:
  "\<not> survives sn \<Longrightarrow> center_mask (select_target thr st sn) = center_mask st
     \<and> all_raw_spec (select_target thr st sn) = all_raw_spec st"
  by (auto simp: survives_def select_target_def Let_def)

lemma select_target_kept:
  assumes "survives sn"
  shows "all_raw_spec (select_target thr st sn) = all_raw_spec st @ used_spectra thr sn"
    and "center_mask (select_target thr st sn) =
           center_mask st @ (if used_spectra thr sn = [] then []
                             else target_center_mask (map phase (used_spectra thr sn)))"
  using assms by (auto simp: survives_def select_target_def used_spectra_def Let_def)

lemma select_target_aligned:
  "length (center_mask st) = length (all_raw_spec st) \<Longrightarrow>
   length (center_mask (select_target thr st sn)) = length (all_raw_spec (select_target thr st sn))"
proof (cases "survives sn")
  case True
  assume "length (center_mask st) = length (all_raw_spec st)"
  then show ?thesis
    by (simp add: select_target_kept [OF True] target_center_mask_length)
next
  case False
  assume "length (center_mask st) = length (all_raw_spec st)"
  then show ?thesis by (simp add: select_target_cut [OF False])
qed

lemma foldl_select_target_aligned:
  "length (center_mask st) = length (all_raw_spec st) \<Longrightarrow>
   length (center_mask (foldl (select_target thr) st sns))
     = length (all_raw_spec (foldl (select_target thr) st sns))"
  by (induction sns arbitrary: st) (simp_all add: select_target_aligned)

lemma select_targets_aligned:
  "length (center_mask (select_targets thr sns)) = length (all_raw_spec (select_targets thr sns))"
  unfolding select_targets_def
  by (rule foldl_select_target_aligned) (simp add: empty_selection_def)



subsection \<open>Cache keys\<close>






subsection \<open>Phase coefficients\<close>

lemma set_phase_weights_snoc:
  "set_phase_weights n ph fb rem i (js @ [j]) m =
     (case set_phase_weights n ph fb rem i js m of
        Inl e \<Rightarrow> Inl e
      | Inr m' \<Rightarrow> set_phase_weight n ph fb rem i m' j)"
  by (induction js arbitrary: m) (auto split: sum.splits)

lemma np_set2_in_range:
  "i < length m \<Longrightarrow> c < length (m ! i) \<Longrightarrow>
   np_set2 m i (int c) w = Inr (m[i := (m ! i)[c := w]])"
  by (simp add: np_set2_def np_set_def)

lemma np_set2_last:
  "i < length m \<Longrightarrow> 0 < length (m ! i) \<Longrightarrow>
   np_set2 m i (- 1) w = Inr (m[i := (m ! i)[length (m ! i) - 1 := w]])"
proof -
  assume a: "i < length m" "0 < length (m ! i)"
  define L where "L = length (m ! i)"
  have L: "0 < L" using a(2) by (simp add: L_def)
  have n: "nat (- 1 + int L) = L - 1" using L by linarith
  have c: "\<not> (0 \<le> (- 1 :: int) \<and> - 1 < int L)" "- int L \<le> - 1 \<and> (- 1 :: int) < 0"
    using L by auto
  have "np_set (m ! i) (- 1) w = Inr ((m ! i)[L - 1 := w])"
    unfolding np_set_def Let_def L_def [symmetric] using c n by simp
  then show ?thesis using a(1) by (simp add: np_set2_def L_def)
qed

lemma np_set2_row:
  "i < length m \<Longrightarrow> c < length row \<Longrightarrow>
   np_set2 (m[i := row]) i (int c) w = Inr (m[i := row[c := w]])"
  by (simp add: np_set2_in_range)

lemma np_set2_row_last:
  "i < length m \<Longrightarrow> 0 < length row \<Longrightarrow>
   np_set2 (m[i := row]) i (- 1) w = Inr (m[i := row[length row - 1 := w]])"
  by (simp add: np_set2_last)

lemma pos_weights:
  assumes "i < length m" and "0 < ph" and "k \<le> fb + 1" and "half + fb < N"
    and "n div 2 = int half"
    and "m ! i = replicate N 0"
  shows "set_phase_weights n ph fb rem i [0..<k] m =
     Inr (m[i := map (\<lambda>c. if half \<le> c \<and> c < half + k
                             then (if c = half + fb then rem else 1) else 0) [0..<N]])"
  using assms(3)
proof (induction k)
  case 0
  have "map (\<lambda>c. if half \<le> c \<and> c < half + 0
                   then (if c = half + fb then rem else 1) else (0::real)) [0..<N] = replicate N 0"
    by (rule nth_equalityI) auto
  moreover have "m[i := m ! i] = m" by (rule list_update_id)
  ultimately show ?case using assms(6) by simp
next
  case (Suc k)
  let ?row = "\<lambda>k. map (\<lambda>c. if half \<le> c \<and> c < half + k
                             then (if c = half + fb then rem else 1) else (0::real)) [0..<N]"
  have IH: "set_phase_weights n ph fb rem i [0..<k] m = Inr (m[i := ?row k])"
    using Suc by simp
  have col: "half + k < N" using Suc.prems assms(4) by simp
  have pb: "(if 0 < ph then n div 2 + int k else n div 2 - 1 - int k) = int (half + k)"
    using assms(2,5) by simp
  have step: "set_phase_weight n ph fb rem i (m[i := ?row k]) k
      = Inr (m[i := (?row k)[half + k := (if k = fb then rem else 1)]])"
    unfolding set_phase_weight_def Let_def pb
    by (rule np_set2_row) (use assms(1) col in simp_all)
  have upd: "(?row k)[half + k := (if k = fb then rem else 1)] = ?row (Suc k)"
    using col Suc.prems by (intro nth_equalityI) (auto simp: nth_list_update)
  show ?case
    by (simp add: set_phase_weights_snoc IH step upd)
qed

lemma neg_weights:
  assumes "i < length m" and "\<not> 0 < ph" and "k \<le> fb + 1" and "k \<le> half" and "half \<le> N"
    and "n div 2 = int half"
    and "m ! i = replicate N 0"
  shows "set_phase_weights n ph fb rem i [0..<k] m =
     Inr (m[i := map (\<lambda>c. if c < half \<and> half \<le> c + k
                             then (if c + fb + 1 = half then rem else 1) else 0) [0..<N]])"
  using assms(3,4)
proof (induction k)
  case 0
  have "map (\<lambda>c. if c < half \<and> half \<le> c + 0
                   then (if c + fb + 1 = half then rem else 1) else (0::real)) [0..<N] = replicate N 0"
    by (rule nth_equalityI) auto
  moreover have "m[i := m ! i] = m" by (rule list_update_id)
  ultimately show ?case using assms(7) by simp
next
  case (Suc k)
  let ?row = "\<lambda>k. map (\<lambda>c. if c < half \<and> half \<le> c + k
                             then (if c + fb + 1 = half then rem else 1) else (0::real)) [0..<N]"
  have IH: "set_phase_weights n ph fb rem i [0..<k] m = Inr (m[i := ?row k])"
    using Suc by simp
  have col: "half - 1 - k < N" "k < half" using Suc.prems assms(5) by simp_all
  have bin: "n div 2 - 1 - int k = int (half - 1 - k)" using col(2) assms(6) by simp
  have pb: "(if 0 < ph then n div 2 + int k else n div 2 - 1 - int k) = int (half - 1 - k)"
    using assms(2) bin by simp
  have step: "set_phase_weight n ph fb rem i (m[i := ?row k]) k
      = Inr (m[i := (?row k)[half - 1 - k := (if k = fb then rem else 1)]])"
    unfolding set_phase_weight_def Let_def pb
    by (rule np_set2_row) (use assms(1) col in simp_all)
  have upd: "(?row k)[half - 1 - k := (if k = fb then rem else 1)] = ?row (Suc k)"
    using col Suc.prems by (intro nth_equalityI) (auto simp: nth_list_update)
  have "set_phase_weights n ph fb rem i [0..<Suc k] m
      = set_phase_weight n ph fb rem i (m[i := ?row k]) k"
    by (simp add: set_phase_weights_snoc IH)
  also have "\<dots> = Inr (m[i := (?row k)[half - 1 - k := (if k = fb then rem else 1)]])"
    by (rule step)
  also have "\<dots> = Inr (m[i := ?row (Suc k)])"
    by (simp only: upd)
  finally show ?case .
qed

lemma set_phase_row_filled:
  assumes n: "0 < n" "even n" and pr: "0 < pr" and ph: "- pr \<le> ph" "ph < pr"
    and i: "i < length m" and z: "m ! i = replicate (nat n) 0"
  shows "set_phase_row n pr i ph m = Inr (m[i := filled_row n pr ph])"
proof -
  define half where "half = nat (n div 2)"
  define N where "N = nat n"
  define s where "s = \<bar>(real_of_int n / 2) * (ph / pr)\<bar>"
  define fb where "fb = nat \<lfloor>s\<rfloor>"
  define rem where "rem = s - real fb"
  have half: "n div 2 = int half" "N = 2 * half" "0 < half"
    using n by (auto simp: half_def N_def elim!: evenE)
  have rn: "real_of_int n / 2 = real half" using n by (auto simp: half_def elim!: evenE)
  have s_eq: "s = real half * (\<bar>ph\<bar> / pr)"
    using pr by (simp add: s_def rn abs_mult)
  have t: "0 \<le> \<bar>ph\<bar> / pr" "\<bar>ph\<bar> / pr \<le> 1" using pr ph by auto
  have s0: "0 \<le> s" by (simp add: s_def)
  have s_le: "s \<le> real half"
    unfolding s_eq using t mult_left_le [of "\<bar>ph\<bar> / pr" "real half"] by simp
  have fb_le: "fb \<le> half"
  proof -
    have "\<lfloor>s\<rfloor> \<le> int half" using s_le by (simp add: floor_le_iff)
    then show ?thesis by (simp add: fb_def)
  qed
  have unfold: "set_phase_row n pr i ph m
      = set_phase_weights n ph fb rem i [0..<fb + 1] m"
  proof -
    have pr0: "(pr = 0) = False" using pr by simp
    show ?thesis
      unfolding set_phase_row_def Let_def pr0 if_False s_def fb_def rem_def ..
  qed
  have frow: "filled_row n pr ph = map (\<lambda>c. if ph > 0
                   then (if half \<le> c \<and> c < half + fb then 1
                         else if c = half + fb then rem else 0)
                   else (if c < half \<and> half \<le> c + fb then 1
                         else if c + fb + 1 = half then rem else 0)) [0..<N]"
    unfolding filled_row_def Let_def s_def fb_def rem_def half_def N_def ..
  show ?thesis
  proof (cases "0 < ph")
    case True
    have "\<bar>ph\<bar> / pr < 1" using ph pr True by simp
    then have "real half * (\<bar>ph\<bar> / pr) < real half * 1"
      using half(3) by (intro mult_strict_left_mono) simp_all
    then have "s < real half" unfolding s_eq by simp
    then have "\<lfloor>s\<rfloor> < int half" by (simp add: floor_less_iff)
    then have fb_lt: "fb < half" using half(3) unfolding fb_def by linarith
    have "set_phase_weights n ph fb rem i [0..<fb + 1] m =
       Inr (m[i := map (\<lambda>c. if half \<le> c \<and> c < half + (fb + 1)
                             then (if c = half + fb then rem else 1) else 0) [0..<N]])"
      by (rule pos_weights [OF i True _ _ half(1)]) (use fb_lt half z in \<open>simp_all add: N_def\<close>)
    moreover have "map (\<lambda>c. if half \<le> c \<and> c < half + (fb + 1)
                             then (if c = half + fb then rem else 1) else 0) [0..<N]
        = filled_row n pr ph"
      unfolding frow using True by (intro nth_equalityI) auto
    ultimately show ?thesis by (simp add: unfold)
  next
    case False
    show ?thesis
    proof (cases "fb < half")
      case True
      have "set_phase_weights n ph fb rem i [0..<fb + 1] m =
         Inr (m[i := map (\<lambda>c. if c < half \<and> half \<le> c + (fb + 1)
                             then (if c + fb + 1 = half then rem else 1) else 0) [0..<N]])"
        by (rule neg_weights [OF i False _ _ _ half(1)]) (use True half z in \<open>simp_all add: N_def\<close>)
      moreover have "map (\<lambda>c. if c < half \<and> half \<le> c + (fb + 1)
                             then (if c + fb + 1 = half then rem else 1) else 0) [0..<N]
          = filled_row n pr ph"
        unfolding frow using False by (intro nth_equalityI) auto
      ultimately show ?thesis by (simp add: unfold)
    next
      case nlt: False
      then have fb_eq: "fb = half" using fb_le by simp
      have "real half \<le> s"
      proof -
        have "int half \<le> \<lfloor>s\<rfloor>" using fb_eq half(3) unfolding fb_def by linarith
        then show ?thesis by (simp add: le_floor_iff)
      qed
      then have rem0: "rem = 0" using s_le by (simp add: rem_def fb_eq)
      let ?row = "map (\<lambda>c. if c < half \<and> half \<le> c + half
                             then (if c + fb + 1 = half then rem else 1) else (0::real)) [0..<N]"
      have first: "set_phase_weights n ph fb rem i [0..<half] m = Inr (m[i := ?row])"
        by (rule neg_weights [OF i False _ _ _ half(1)]) (use fb_eq half z in \<open>simp_all add: N_def\<close>)
      have bin: "n div 2 - 1 - int half = - 1" using half(1) by simp
      have len: "length ?row = N" by simp
      have pb: "(if 0 < ph then n div 2 + int half else n div 2 - 1 - int half) = - 1"
        using False bin by simp
      have wt: "(if half = fb then rem else 1) = 0" using fb_eq rem0 by simp
      have "np_set2 (m[i := ?row]) i (- 1) 0 = Inr (m[i := ?row[length ?row - 1 := 0]])"
        by (rule np_set2_row_last) (use i half in simp_all)
      then have last: "set_phase_weight n ph fb rem i (m[i := ?row]) half
          = Inr (m[i := ?row[N - 1 := 0]])"
        unfolding set_phase_weight_def Let_def pb wt by simp
      have same: "?row[N - 1 := 0] = ?row"
        using half by (intro nth_equalityI) (auto simp: nth_list_update)
      have "set_phase_weights n ph fb rem i [0..<fb + 1] m = Inr (m[i := ?row])"
        using first last same by (simp add: fb_eq set_phase_weights_snoc)
      moreover have "?row = filled_row n pr ph"
        unfolding frow using False fb_eq by (intro nth_equalityI) auto
      ultimately show ?thesis by (simp add: unfold)
    qed
  qed
qed

lemma set_phase_rows_filled:
  assumes "0 < n" "even n" "0 < pr"
    and "\<forall>p \<in> set phases. - pr \<le> p \<and> p < pr"
    and "i + length phases \<le> length m"
    and "\<forall>k. i \<le> k \<and> k < length m \<longrightarrow> m ! k = replicate (nat n) 0"
  shows "set_phase_rows n pr i phases m
      = Inr (take i m @ map (filled_row n pr) phases @ drop (i + length phases) m)"
  using assms(4,5,6)
proof (induction phases arbitrary: i m)
  case Nil
  then show ?case by simp
next
  case (Cons p ps)
  have i: "i < length m" using Cons.prems(2) by simp
  have z: "m ! i = replicate (nat n) 0" using Cons.prems(3) i by simp
  have p: "- pr \<le> p" "p < pr" using Cons.prems(1) by simp_all
  let ?m = "m[i := filled_row n pr p]"
  have row: "set_phase_row n pr i p m = Inr ?m"
    by (rule set_phase_row_filled [OF assms(1,2,3) p i z])
  have rest: "set_phase_rows n pr (Suc i) ps ?m
      = Inr (take (Suc i) ?m @ map (filled_row n pr) ps @ drop (Suc i + length ps) ?m)"
  proof (rule Cons.IH)
    show "\<forall>p \<in> set ps. - pr \<le> p \<and> p < pr" using Cons.prems(1) by simp
    show "Suc i + length ps \<le> length ?m" using Cons.prems(2) by simp
    show "\<forall>k. Suc i \<le> k \<and> k < length ?m \<longrightarrow> ?m ! k = replicate (nat n) 0"
      using Cons.prems(3) by (auto simp: nth_list_update)
  qed
  have t: "take (Suc i) ?m = take i m @ [filled_row n pr p]"
    using i by (simp add: take_Suc_conv_app_nth)
  have d: "drop (Suc i + length ps) ?m = drop (i + length (p # ps)) m"
    by simp
  show ?case
    by (simp only: set_phase_rows.simps row sum.case rest t d list.map append.simps append_assoc)
qed

text \<open>
  C3 (as stated). With six control points and a phase range of 5 days, the row of a
  spectrum at phase 4.5, which lies in the range, has three nonzero entries.
\<close>

theorem phase_row_counterexample:
  "phase_coefficients 6 5 1 [9 / 2] = Inr [[0, 0, 0, 1, 1, 7 / 10]]
   \<and> \<not> at_most_two_adjacent [0, 0, 0, 1, 1, 7 / 10]"
proof
  show "phase_coefficients 6 5 1 [9 / 2] = Inr [[0, 0, 0, 1, 1, 7 / 10]]"
    by (simp add: phase_coefficients_def set_phase_row_def set_phase_weight_def np_set2_def
        np_set_def Let_def upt_rec eval_nat_numeral)
  show "\<not> at_most_two_adjacent [0, 0, 0, 1, 1, 7 / 10]"
    by (simp add: at_most_two_adjacent_def nonzero_columns_def upt_rec)
qed

text \<open>
  C3 (amended). For an even positive number \<open>n\<close> of control points and a positive phase
  range, if the phase of every spectrum lies in \<open>[-phase_range, phase_range)\<close>, the matrix
  is constructed and the row of each spectrum is \<open>filled_row\<close>: with
  \<open>s = |n/2 * phase/phase_range|\<close>, the \<open>floor s\<close> columns next to the centre (upwards from
  column \<open>n/2\<close> for a positive phase, downwards from column \<open>n/2 - 1\<close> otherwise) hold 1, the
  next column outwards holds \<open>s - floor s\<close>, and every other column holds 0.
\<close>

theorem phase_coefficients_filled:
  assumes "0 < n" and "even n" and "0 < pr"
    and "length phases \<le> num_spectra"
    and "\<forall>p \<in> set phases. - pr \<le> p \<and> p < pr"
  shows "\<exists>m. phase_coefficients n pr num_spectra phases = Inr m
           \<and> length m = num_spectra
           \<and> (\<forall>i < length phases. m ! i = filled_row n pr (phases ! i))"
proof -
  let ?z = "replicate num_spectra (replicate (nat n) (0::real))"
  let ?m = "take 0 ?z @ map (filled_row n pr) phases @ drop (0 + length phases) ?z"
  have "set_phase_rows n pr 0 phases ?z = Inr ?m"
    by (rule set_phase_rows_filled [OF assms(1,2,3,5)]) (use assms(4) in simp_all)
  then have "phase_coefficients n pr num_spectra phases = Inr ?m"
    using assms(1) by (simp add: phase_coefficients_def)
  moreover have "length ?m = num_spectra" using assms(4) by simp
  moreover have "\<forall>i < length phases. ?m ! i = filled_row n pr (phases ! i)"
    by (simp add: nth_append)
  ultimately show ?thesis by blast
qed

theorem phase_coefficients_filled_witness:
  "phase_coefficients 4 5 3 [- 5, 0, 4] = Inr [[1, 1, 0, 0], [0, 0, 0, 0], [0, 0, 1, 3 / 5]]"
proof -
  have f: "filled_row 4 5 (- 5) = [1, 1, 0, 0]" "filled_row 4 5 0 = [0, 0, 0, 0]"
    "filled_row 4 5 4 = [0, 0, 1, 3 / 5]"
    by (simp_all add: filled_row_def Let_def upt_rec)
  have "\<exists>m. phase_coefficients 4 5 3 [- 5, 0, 4] = Inr m \<and> length m = 3
           \<and> (\<forall>i < length [- 5, 0, 4 :: real]. m ! i = filled_row 4 5 ([- 5, 0, 4] ! i))"
    by (rule phase_coefficients_filled) simp_all
  then obtain m where m: "phase_coefficients 4 5 3 [- 5, 0, 4] = Inr m" "length m = 3"
    "\<forall>i < 3. m ! i = filled_row 4 5 ([- 5, 0, 4] ! i)" by auto
  have "m ! 0 = [1, 1, 0, 0]" "m ! 1 = [0, 0, 0, 0]" "m ! 2 = [0, 0, 1, 3 / 5]"
    using m(3) f by (auto simp: eval_nat_numeral)
  then have "m = [[1, 1, 0, 0], [0, 0, 0, 0], [0, 0, 1, 3 / 5]]"
    using m(2) by (intro nth_equalityI) (auto simp: less_Suc_eq eval_nat_numeral)
  then show ?thesis using m(1) by simp
qed

subsection \<open>The maximum-light stage and its cache\<close>











subsection \<open>Blinding of the validation magnitudes\<close>










end
